theory Spec2Isabelle
  imports Complex_Main "HOL-Library.AList" "HOL-Library.Multiset"
begin

section \<open>Values, errors and task records\<close>

text \<open>
  The scoring engine of \<^verbatim>\<open>backend/tasks/scoring.py\<close> works on Python dictionaries whose
  values arrive from JSON. The values a scalar field can hold are modelled by \<open>pyval\<close>.
  A Python \<^verbatim>\<open>float\<close> is modelled by the real number it denotes and float arithmetic by
  exact arithmetic: the rounding of IEEE doubles, infinities and NaN are outside the model.
  A \<^verbatim>\<open>datetime.date\<close> is modelled by its proleptic Gregorian ordinal, so that
  \<^verbatim>\<open>(due_date - today).days\<close> is the difference of two integers.
\<close>

datatype py_error = TypeError | ValueError | KeyError | IndexError

type_synonym date = int

datatype pyval = PyNone | PyInt int | PyFloat real | PyStr string | PyDate date

text \<open>
  The name a task is reported under: \<^verbatim>\<open>task.get('title', f"Task {task.get('id')}")\<close>.
\<close>

datatype label = Title string | Task_no "int option"

text \<open>
  Explanation texts are f-strings. They are kept as the template with its arguments, in the
  order of the holes; the rendering of numbers into characters is not modelled.
\<close>

datatype fmt_arg = Int_arg int | Num_arg real | Val_arg pyval | Str_arg string | Label_arg label
  | Expl_arg explanation
and explanation = Template string "fmt_arg list"

text \<open>
  A task dictionary. \<open>None\<close> in \<open>task_id\<close>, \<open>title\<close> and \<open>dependencies\<close> is an absent
  key (\<^verbatim>\<open>task.get\<close> then yields its default); an absent scalar field reads as \<open>PyNone\<close>,
  which is what \<^verbatim>\<open>task.get('importance')\<close> returns for it.
\<close>

record task =
  task_id :: "int option"
  title :: "string option"
  due_date :: pyval
  estimated_hours :: pyval
  importance :: pyval
  dependencies :: "int list option"

text \<open>
  A comparison of a field with a number, and arithmetic on it, raise \<^verbatim>\<open>TypeError\<close> unless
  the field holds an \<^verbatim>\<open>int\<close> or a \<^verbatim>\<open>float\<close>; an \<^verbatim>\<open>int\<close> operand is converted exactly.
\<close>

fun py_number :: "pyval \<Rightarrow> real option" where
  "py_number (PyInt n) = Some (of_int n)"
| "py_number (PyFloat x) = Some x"
| "py_number _ = None"

section \<open>Factor scores\<close>

subsection \<open>Importance\<close>

definition importance_level :: "real \<Rightarrow> string" where
  "importance_level x =
     (if x \<ge> 8 then ''Critical importance''
      else if x \<ge> 6 then ''High importance''
      else if x \<ge> 4 then ''Medium importance''
      else ''Low importance'')"

definition calculate_importance_score :: "pyval \<Rightarrow> py_error + (real \<times> explanation)" where
  "calculate_importance_score rating =
     (case py_number rating of
        None \<Rightarrow> Inl TypeError
      | Some x \<Rightarrow>
          if x < 1 \<or> x > 10
          then Inr (5, Template ''Invalid importance (must be 1-10), using default'' [])
          else Inr (x, Template ''{} (rated {}/10)''
                        [Str_arg (importance_level x), Val_arg rating]))"

subsection \<open>Urgency\<close>

text \<open>
  The branch chain of \<^verbatim>\<open>calculate_urgency_score\<close> on \<^verbatim>\<open>days_left\<close>.
\<close>

definition urgency_by_days_left :: "int \<Rightarrow> real \<times> explanation" where
  "urgency_by_days_left days_left =
     (if days_left < 0
      then (10, Template ''OVERDUE by {} days - Maximum urgency!'' [Int_arg (abs days_left)])
      else if days_left = 0
      then (9, Template ''Due TODAY - Very high urgency'' [])
      else if days_left \<le> 3
      then (8 - of_int days_left * (3 / 10),
            Template ''Due in {} days - High urgency'' [Int_arg days_left])
      else if days_left \<le> 7
      then (7 - of_int (days_left - 3) * (1 / 2),
            Template ''Due in {} days - Medium urgency'' [Int_arg days_left])
      else if days_left \<le> 14
      then (5 - of_int (days_left - 7) * (3 / 10),
            Template ''Due in {} days - Moderate urgency'' [Int_arg days_left])
      else (max 1 (3 - of_int (days_left - 14) * (1 / 10)),
            Template ''Due in {} days - Low urgency'' [Int_arg days_left]))"

text \<open>
  \<^verbatim>\<open>datetime.strptime(s, '%Y-%m-%d').date()\<close> is library code: it is the parameter
  \<open>strptime\<close>, which is \<open>None\<close> where the library raises \<^verbatim>\<open>ValueError\<close>. \<open>clock\<close> is
  what \<^verbatim>\<open>date.today()\<close> returns. A value that is not a string is used as a date as it
  is, and the subtraction raises \<^verbatim>\<open>TypeError\<close> when it is not one.
\<close>

definition calculate_urgency_score ::
  "(string \<Rightarrow> date option) \<Rightarrow> date \<Rightarrow> pyval \<Rightarrow> date option \<Rightarrow> py_error + (real \<times> explanation)"
where
  "calculate_urgency_score strptime clock due_date_str today_arg =
     (let today = (case today_arg of None \<Rightarrow> clock | Some d \<Rightarrow> d) in
      case due_date_str of
        PyStr s \<Rightarrow>
          (case strptime s of
             None \<Rightarrow> Inr (5, Template ''Invalid date format, using default urgency'' [])
           | Some d \<Rightarrow> Inr (urgency_by_days_left (d - today)))
      | PyDate d \<Rightarrow> Inr (urgency_by_days_left (d - today))
      | _ \<Rightarrow> Inl TypeError)"

subsection \<open>Effort\<close>

definition calculate_effort_score :: "pyval \<Rightarrow> py_error + (real \<times> explanation)" where
  "calculate_effort_score hours =
     (case py_number hours of
        None \<Rightarrow> Inl TypeError
      | Some h \<Rightarrow>
          Inr (if h \<le> 0
               then (5, Template ''Invalid estimated hours, using default'' [])
               else if h < 1
               then (10, Template ''Quick win! ({}h) - Maximum effort score'' [Val_arg hours])
               else if h \<le> 2
               then (9 - (h - 1) * (1 / 2),
                     Template ''Fast task ({}h) - High effort score'' [Val_arg hours])
               else if h \<le> 4
               then (15 / 2 - (h - 2) * (3 / 4),
                     Template ''Moderate task ({}h) - Medium effort score'' [Val_arg hours])
               else if h \<le> 8
               then (11 / 2 - (h - 4) * (3 / 8),
                     Template ''Substantial task ({}h) - Lower effort score'' [Val_arg hours])
               else (max 1 (4 - (h - 8) * (1 / 5)),
                     Template ''Large task ({}h) - Low effort score'' [Val_arg hours])))"

subsection \<open>Dependencies\<close>

definition get_dependencies :: "task \<Rightarrow> int list" where
  "get_dependencies t = (case dependencies t of None \<Rightarrow> [] | Some ds \<Rightarrow> ds)"

definition get_title :: "task \<Rightarrow> label" where
  "get_title t = (case title t of None \<Rightarrow> Task_no (task_id t) | Some s \<Rightarrow> Title s)"

text \<open>
  The loop of \<^verbatim>\<open>calculate_dependency_score\<close> over \<^verbatim>\<open>all_tasks\<close>, with its two
  accumulators \<^verbatim>\<open>blocking_count\<close> and \<^verbatim>\<open>blocked_tasks\<close>. The id of the scored task may be
  Python's \<^verbatim>\<open>None\<close>, which is a member of no list of integers.
\<close>

fun count_blocked :: "int option \<Rightarrow> task list \<Rightarrow> nat \<times> label list \<Rightarrow> nat \<times> label list" where
  "count_blocked tid [] acc = acc"
| "count_blocked tid (t # ts) (blocking_count, blocked_tasks) =
     (if tid \<in> set (map Some (get_dependencies t))
      then count_blocked tid ts (blocking_count + 1, blocked_tasks @ [get_title t])
      else count_blocked tid ts (blocking_count, blocked_tasks))"

definition calculate_dependency_score ::
  "int option \<Rightarrow> task list \<Rightarrow> py_error + (real \<times> explanation)"
where
  "calculate_dependency_score tid all_tasks =
     (case count_blocked tid all_tasks (0, []) of
        (blocking_count, blocked_tasks) \<Rightarrow>
          if blocking_count = 0 then Inr (3, Template ''No tasks depend on this'' [])
          else if blocking_count = 1
          then (case blocked_tasks of
                  [] \<Rightarrow> Inl IndexError
                | b # _ \<Rightarrow> Inr (6, Template ''Blocks 1 task: {}'' [Label_arg b]))
          else if blocking_count = 2
          then Inr (8, Template ''Blocks {} tasks'' [Int_arg (int blocking_count)])
          else Inr (min 10 (8 + (of_nat blocking_count - 2) * (1 / 2)),
                    Template ''Blocks {} tasks - High priority!''
                      [Int_arg (int blocking_count)]))"

section \<open>Dependency graph analysis\<close>

text \<open>
  The adjacency dictionary of \<^verbatim>\<open>detect_circular_dependencies\<close> is an association list
  in insertion order; \<^verbatim>\<open>graph[k] = v\<close> is \<open>AList.update\<close>, which replaces the value of a
  key in place and appends a new key. A node is a task id, so it may be Python's
  \<^verbatim>\<open>None\<close>; the ids in a dependency list are integers.
\<close>

type_synonym 'a graph = "('a \<times> 'a list) list"

definition graph_get :: "'a graph \<Rightarrow> 'a \<Rightarrow> 'a list" where
  "graph_get graph node = (case map_of graph node of None \<Rightarrow> [] | Some ns \<Rightarrow> ns)"

text \<open>\<^verbatim>\<open>path.index(x)\<close>: the first position of \<open>x\<close>, \<open>None\<close> where Python raises.\<close>

fun list_index :: "'a list \<Rightarrow> 'a \<Rightarrow> nat option" where
  "list_index [] x = None"
| "list_index (y # ys) x = (if y = x then Some 0 else map_option Suc (list_index ys x))"

text \<open>The truth value of \<^verbatim>\<open>if cycle:\<close> on an optional list.\<close>

fun truthy :: "'a list option \<Rightarrow> bool" where
  "truthy None = False"
| "truthy (Some []) = False"
| "truthy (Some (x # xs)) = True"

fun cycle_nodes :: "'a list option \<Rightarrow> 'a list" where
  "cycle_nodes None = []"
| "cycle_nodes (Some c) = c"

text \<open>
  \<^verbatim>\<open>has_cycle_util\<close> calls itself from inside its loop, and the sets \<^verbatim>\<open>visited\<close> and
  \<^verbatim>\<open>rec_stack\<close> are shared by all calls. The two places of the recursion are the frames:
  \<open>Enter node path\<close> is the call \<^verbatim>\<open>has_cycle_util(node, visited, rec_stack, path)\<close>, and
  \<open>For_neighbors node path ns\<close> is its loop with the neighbours \<open>ns\<close> still to come
  (\<open>path\<close> is the callee's own copy, \<open>node\<close> appended). The result is \<open>None\<close> where the
  recursion does not return, \<open>Inl\<close> where Python raises (\<^verbatim>\<open>rec_stack.remove\<close> raises
  \<^verbatim>\<open>KeyError\<close>, \<^verbatim>\<open>path.index\<close> raises \<^verbatim>\<open>ValueError\<close>), and otherwise the returned cycle
  with the two sets as the call leaves them.
\<close>

datatype 'a frame = Enter 'a "'a list" | For_neighbors 'a "'a list" "'a list"

partial_function (option) dfs ::
  "'a graph \<Rightarrow> 'a frame \<Rightarrow> 'a set \<Rightarrow> 'a set
     \<Rightarrow> (py_error + 'a list option \<times> 'a set \<times> 'a set) option"
where
  "dfs graph frame visited rec_stack =
     (case frame of
        Enter node path \<Rightarrow>
          dfs graph (For_neighbors node (path @ [node]) (graph_get graph node))
            (insert node visited) (insert node rec_stack)
      | For_neighbors node path [] \<Rightarrow>
          if node \<in> rec_stack then Some (Inr (None, visited, rec_stack - {node}))
          else Some (Inl KeyError)
      | For_neighbors node path (neighbor # rest) \<Rightarrow>
          if neighbor \<notin> visited then
            Option.bind (dfs graph (Enter neighbor path) visited rec_stack) (\<lambda>r.
              case r of
                Inl e \<Rightarrow> Some (Inl e)
              | Inr (cycle, visited', rec_stack') \<Rightarrow>
                  if truthy cycle then Some (Inr (cycle, visited', rec_stack'))
                  else dfs graph (For_neighbors node path rest) visited' rec_stack')
          else if neighbor \<in> rec_stack then
            (case list_index path neighbor of
               None \<Rightarrow> Some (Inl ValueError)
             | Some cycle_start \<Rightarrow>
                 Some (Inr (Some (drop cycle_start path @ [neighbor]), visited, rec_stack)))
          else dfs graph (For_neighbors node path rest) visited rec_stack)"

declare dfs.simps [code]

definition has_cycle_util ::
  "'a graph \<Rightarrow> 'a \<Rightarrow> 'a set \<Rightarrow> 'a set \<Rightarrow> 'a list
     \<Rightarrow> (py_error + 'a list option \<times> 'a set \<times> 'a set) option"
where
  "has_cycle_util graph node visited rec_stack path =
     dfs graph (Enter node path) visited rec_stack"

text \<open>The first loop of \<^verbatim>\<open>detect_circular_dependencies\<close>: it fills \<^verbatim>\<open>graph\<close> and \<^verbatim>\<open>task_map\<close>.\<close>

fun build_graph ::
  "task list \<Rightarrow> int option graph \<times> (int option \<times> label) list
     \<Rightarrow> int option graph \<times> (int option \<times> label) list"
where
  "build_graph [] acc = acc"
| "build_graph (t # ts) (graph, task_map) =
     build_graph ts
       (AList.update (task_id t) (map Some (get_dependencies t)) graph,
        AList.update (task_id t) (get_title t) task_map)"

definition cycle_names :: "(int option \<times> label) list \<Rightarrow> int option list \<Rightarrow> label list" where
  "cycle_names task_map cycle =
     map (\<lambda>tid. case map_of task_map tid of None \<Rightarrow> Task_no tid | Some l \<Rightarrow> l) cycle"

text \<open>
  The second loop, over the keys of \<^verbatim>\<open>graph\<close>: every call starts with a fresh
  \<^verbatim>\<open>rec_stack\<close> and an empty path, and \<^verbatim>\<open>visited\<close> is carried on. A cycle description
  \<^verbatim>\<open>' -> '.join(cycle_names)\<close> is kept as the list of the names.
\<close>

fun find_cycles ::
  "int option graph \<Rightarrow> (int option \<times> label) list \<Rightarrow> int option list \<Rightarrow> int option set
     \<Rightarrow> label list list \<Rightarrow> (py_error + label list list) option"
where
  "find_cycles graph task_map [] visited cycles = Some (Inr cycles)"
| "find_cycles graph task_map (tid # rest) visited cycles =
     (if tid \<notin> visited then
        (case has_cycle_util graph tid visited {} [] of
           None \<Rightarrow> None
         | Some (Inl e) \<Rightarrow> Some (Inl e)
         | Some (Inr (cycle, visited', rec_stack')) \<Rightarrow>
             if truthy cycle
             then find_cycles graph task_map rest visited'
                    (cycles @ [cycle_names task_map (cycle_nodes cycle)])
             else find_cycles graph task_map rest visited' cycles)
      else find_cycles graph task_map rest visited cycles)"

definition detect_circular_dependencies ::
  "task list \<Rightarrow> (py_error + bool \<times> label list list) option"
where
  "detect_circular_dependencies tasks =
     (case build_graph tasks ([], []) of
        (graph, task_map) \<Rightarrow>
          (case find_cycles graph task_map (map fst graph) {} [] of
             None \<Rightarrow> None
           | Some (Inl e) \<Rightarrow> Some (Inl e)
           | Some (Inr cycles) \<Rightarrow> Some (Inr (length cycles > 0, cycles))))"

section \<open>Final score\<close>

text \<open>
  The four factors of a score: the breakdown of a task and the weight vector of a strategy
  (the dictionaries with the keys \<^verbatim>\<open>urgency\<close>, \<^verbatim>\<open>importance\<close>, \<^verbatim>\<open>effort\<close> and
  \<^verbatim>\<open>dependency\<close>).
\<close>

record factors =
  f_urgency :: real
  f_importance :: real
  f_effort :: real
  f_dependency :: real

definition STRATEGY_WEIGHTS :: "(string \<times> factors) list" where
  "STRATEGY_WEIGHTS =
     [(''FASTEST_WINS'',
         \<lparr>f_urgency = 15 / 100, f_importance = 15 / 100, f_effort = 55 / 100,
          f_dependency = 15 / 100\<rparr>),
      (''HIGH_IMPACT'',
         \<lparr>f_urgency = 15 / 100, f_importance = 55 / 100, f_effort = 15 / 100,
          f_dependency = 15 / 100\<rparr>),
      (''DEADLINE_DRIVEN'',
         \<lparr>f_urgency = 55 / 100, f_importance = 20 / 100, f_effort = 10 / 100,
          f_dependency = 15 / 100\<rparr>),
      (''SMART_BALANCE'',
         \<lparr>f_urgency = 25 / 100, f_importance = 25 / 100, f_effort = 25 / 100,
          f_dependency = 25 / 100\<rparr>)]"

text \<open>
  \<^verbatim>\<open>round(x, ndigits)\<close> on a float: the nearest multiple of \<open>10 ^ -ndigits\<close>, a tie going
  to the even one.
\<close>

definition py_round :: "real \<Rightarrow> nat \<Rightarrow> real" where
  "py_round x ndigits =
     (let p = 10 ^ ndigits; y = x * p; f = \<lfloor>y\<rfloor>; r = y - of_int f in
      of_int (if r < 1 / 2 then f else if r > 1 / 2 then f + 1
              else if even f then f else f + 1) / p)"

record score_data =
  final_score :: real
  breakdown :: factors
  weights :: factors
  explanation :: explanation

text \<open>
  \<^verbatim>\<open>calculate_final_score\<close>. The default of \<^verbatim>\<open>STRATEGY_WEIGHTS.get\<close> is evaluated
  before the lookup, and each factor function may raise. The urgency is computed against
  the clock: no \<^verbatim>\<open>today\<close> is passed.
\<close>

definition calculate_final_score ::
  "(string \<Rightarrow> date option) \<Rightarrow> date \<Rightarrow> task \<Rightarrow> task list \<Rightarrow> string \<Rightarrow> py_error + score_data"
where
  "calculate_final_score strptime clock t all_tasks strategy =
     (case map_of STRATEGY_WEIGHTS ''SMART_BALANCE'' of
        None \<Rightarrow> Inl KeyError
      | Some smart_balance \<Rightarrow>
     let ws = (case map_of STRATEGY_WEIGHTS strategy of None \<Rightarrow> smart_balance | Some w \<Rightarrow> w) in
     case calculate_urgency_score strptime clock (due_date t) None of
        Inl e \<Rightarrow> Inl e
      | Inr (urgency_score, urgency_exp) \<Rightarrow>
     case calculate_importance_score (importance t) of
        Inl e \<Rightarrow> Inl e
      | Inr (importance_score, importance_exp) \<Rightarrow>
     case calculate_effort_score (estimated_hours t) of
        Inl e \<Rightarrow> Inl e
      | Inr (effort_score, effort_exp) \<Rightarrow>
     case calculate_dependency_score (task_id t) all_tasks of
        Inl e \<Rightarrow> Inl e
      | Inr (dependency_score, dependency_exp) \<Rightarrow>
     let score = py_round (urgency_score * f_urgency ws
                   + importance_score * f_importance ws
                   + effort_score * f_effort ws
                   + dependency_score * f_dependency ws) 2
     in Inr \<lparr>final_score = score,
             breakdown = \<lparr>f_urgency = urgency_score, f_importance = importance_score,
                          f_effort = effort_score, f_dependency = dependency_score\<rparr>,
             weights = ws,
             explanation =
               Template (''Priority Score: {}/10 (Strategy: {}) ''
                         @ ''/ Urgency: {:.1f}/10 x {:.0%} = {:.2f} ({}) ''
                         @ ''/ Importance: {:.1f}/10 x {:.0%} = {:.2f} ({}) ''
                         @ ''/ Effort: {:.1f}/10 x {:.0%} = {:.2f} ({}) ''
                         @ ''/ Dependencies: {:.1f}/10 x {:.0%} = {:.2f} ({})'')
                 [Num_arg score, Str_arg strategy,
                  Num_arg urgency_score, Num_arg (f_urgency ws),
                  Num_arg (urgency_score * f_urgency ws), Expl_arg urgency_exp,
                  Num_arg importance_score, Num_arg (f_importance ws),
                  Num_arg (importance_score * f_importance ws), Expl_arg importance_exp,
                  Num_arg effort_score, Num_arg (f_effort ws),
                  Num_arg (effort_score * f_effort ws), Expl_arg effort_exp,
                  Num_arg dependency_score, Num_arg (f_dependency ws),
                  Num_arg (dependency_score * f_dependency ws), Expl_arg dependency_exp]\<rparr>)"

section \<open>Validation and ranking\<close>



text \<open>The characters \<^verbatim>\<open>str.strip()\<close> removes, among those of ASCII.\<close>

definition py_isspace :: "char \<Rightarrow> bool" where
  "py_isspace c = (c \<in> set [CHR '' '', CHR 0x09, CHR 0x0A, CHR 0x0B, CHR 0x0C, CHR 0x0D,
                             CHR 0x1C, CHR 0x1D, CHR 0x1E, CHR 0x1F])"



text \<open>\<^verbatim>\<open>add_task_ids\<close>: the task at position \<open>i\<close> without an id gets the id \<open>i + 1\<close>.\<close>

fun add_task_ids_from :: "nat \<Rightarrow> task list \<Rightarrow> task list" where
  "add_task_ids_from i [] = []"
| "add_task_ids_from i (t # ts) =
     (if task_id t = None then t\<lparr>task_id := Some (int i + 1)\<rparr> else t)
     # add_task_ids_from (i + 1) ts"


text \<open>\<^verbatim>\<open>views.py\<close>: the task with its score, the warnings and the response.\<close>

record scored_task = task +
  priority_score :: real
  score_breakdown :: factors
  score_explanation :: explanation
  priority_level :: string








section \<open>Notions of the statements and proofs\<close>

text \<open>
  The definitions of this section are not code of the repository: they say what the
  theorems below are about.
\<close>

text \<open>The date a due date value stands for, if any.\<close>

definition due_date_denotes :: "(string \<Rightarrow> date option) \<Rightarrow> pyval \<Rightarrow> date option" where
  "due_date_denotes strptime v =
     (case v of PyStr s \<Rightarrow> strptime s | PyDate d \<Rightarrow> Some d | _ \<Rightarrow> None)"

text \<open>The tasks of a batch that list an id among their dependencies.\<close>

definition tasks_listing :: "int option \<Rightarrow> task list \<Rightarrow> task list" where
  "tasks_listing tid batch = filter (\<lambda>t. tid \<in> set (map Some (get_dependencies t))) batch"

text \<open>
  The count in the words of the specification: how many other tasks, that is tasks of
  another id, list the id.
\<close>

definition other_tasks_listing :: "int option \<Rightarrow> task list \<Rightarrow> nat" where
  "other_tasks_listing tid batch =
     length (filter (\<lambda>t. task_id t \<noteq> tid \<and> tid \<in> set (map Some (get_dependencies t))) batch)"

text \<open>
  The edges of an adjacency dictionary, the paths and the cycles in it, and the dependency
  relation of a batch: a task id is related to every id its task depends on.
\<close>

definition edges :: "'a graph \<Rightarrow> ('a \<times> 'a) set" where
  "edges graph = {(a, b). b \<in> set (graph_get graph a)}"

definition is_path :: "'a graph \<Rightarrow> 'a list \<Rightarrow> bool" where
  "is_path graph p = successively (\<lambda>a b. (a, b) \<in> edges graph) p"

definition is_cycle :: "'a graph \<Rightarrow> 'a list \<Rightarrow> bool" where
  "is_cycle graph c = (2 \<le> length c \<and> hd c = last c \<and> is_path graph c)"


text \<open>
  The measure of the recursion of \<open>dfs\<close>: the keys of the graph not yet visited (the
  entered node counted as visited), then the neighbours still to come.
\<close>

definition dfs_measure :: "'a graph \<Rightarrow> 'a frame \<Rightarrow> 'a set \<Rightarrow> nat \<times> nat" where
  "dfs_measure graph frame visited =
     (case frame of
        Enter node path \<Rightarrow>
          (card (fst ` set graph - insert node visited), 2 * length (graph_get graph node) + 1)
      | For_neighbors node path ns \<Rightarrow> (card (fst ` set graph - visited), 2 * length ns))"

text \<open>
  What holds of the arguments of every call that \<open>find_cycles\<close> starts, and what then
  holds of its result: no exception, \<open>visited\<close> grown, and either no cycle and
  \<open>rec_stack\<close> as before the call, or a cycle of the graph.
\<close>

fun frame_ok :: "'a graph \<Rightarrow> 'a frame \<Rightarrow> 'a set \<Rightarrow> 'a set \<Rightarrow> bool" where
  "frame_ok graph (Enter node path) visited rec_stack =
     (rec_stack \<subseteq> set path \<and> rec_stack \<subseteq> visited \<and> node \<notin> visited
      \<and> is_path graph (path @ [node]))"
| "frame_ok graph (For_neighbors node path ns) visited rec_stack =
     (node \<in> rec_stack \<and> rec_stack \<subseteq> set path \<and> rec_stack \<subseteq> visited
      \<and> is_path graph path \<and> path \<noteq> [] \<and> last path = node
      \<and> set ns \<subseteq> set (graph_get graph node))"

fun stack_after :: "'a frame \<Rightarrow> 'a set \<Rightarrow> 'a set" where
  "stack_after (Enter node path) rec_stack = rec_stack"
| "stack_after (For_neighbors node path ns) rec_stack = rec_stack - {node}"

definition dfs_post ::
  "'a graph \<Rightarrow> 'a frame \<Rightarrow> 'a set \<Rightarrow> 'a set \<Rightarrow> (py_error + 'a list option \<times> 'a set \<times> 'a set) \<Rightarrow> bool"
where
  "dfs_post graph frame visited rec_stack y =
     (\<exists>c v rs. y = Inr (c, v, rs) \<and> visited \<subseteq> v
        \<and> (c = None \<longrightarrow> rs = stack_after frame rec_stack)
        \<and> (\<forall>cyc. c = Some cyc \<longrightarrow> is_cycle graph cyc))"

text \<open>
  The nodes a run enters. \<open>dfs_log\<close> is \<open>dfs\<close> with a log: every call of
  \<^verbatim>\<open>has_cycle_util\<close> appends its node to the list \<open>entered\<close>, which no branch reads
  (\<open>dfs_log_erasure\<close> below: without the log it is \<open>dfs\<close>). \<open>entered_by_find_cycles\<close> makes
  the calls of \<open>find_cycles\<close>, and \<open>entered_nodes\<close> is the log of a whole run of
  \<^verbatim>\<open>detect_circular_dependencies\<close>.
\<close>

partial_function (option) dfs_log ::
  "'a graph \<Rightarrow> 'a frame \<Rightarrow> 'a set \<Rightarrow> 'a set \<Rightarrow> 'a list
     \<Rightarrow> (py_error + 'a list option \<times> 'a set \<times> 'a set \<times> 'a list) option"
where
  "dfs_log graph frame visited rec_stack entered =
     (case frame of
        Enter node path \<Rightarrow>
          dfs_log graph (For_neighbors node (path @ [node]) (graph_get graph node))
            (insert node visited) (insert node rec_stack) (entered @ [node])
      | For_neighbors node path [] \<Rightarrow>
          if node \<in> rec_stack then Some (Inr (None, visited, rec_stack - {node}, entered))
          else Some (Inl KeyError)
      | For_neighbors node path (neighbor # rest) \<Rightarrow>
          if neighbor \<notin> visited then
            Option.bind (dfs_log graph (Enter neighbor path) visited rec_stack entered) (\<lambda>r.
              case r of
                Inl e \<Rightarrow> Some (Inl e)
              | Inr (cycle, visited', rec_stack', entered') \<Rightarrow>
                  if truthy cycle then Some (Inr (cycle, visited', rec_stack', entered'))
                  else dfs_log graph (For_neighbors node path rest) visited' rec_stack' entered')
          else if neighbor \<in> rec_stack then
            (case list_index path neighbor of
               None \<Rightarrow> Some (Inl ValueError)
             | Some cycle_start \<Rightarrow>
                 Some (Inr (Some (drop cycle_start path @ [neighbor]), visited, rec_stack,
                            entered)))
          else dfs_log graph (For_neighbors node path rest) visited rec_stack entered)"

declare dfs_log.simps [code]

fun with_log ::
  "(py_error + 'a list option \<times> 'a set \<times> 'a set) \<Rightarrow> 'a list
     \<Rightarrow> (py_error + 'a list option \<times> 'a set \<times> 'a set \<times> 'a list)"
where
  "with_log (Inl e) l = Inl e"
| "with_log (Inr (c, v, rs)) l = Inr (c, v, rs, l)"

fun entered_by_find_cycles :: "'a graph \<Rightarrow> 'a list \<Rightarrow> 'a set \<Rightarrow> 'a list \<Rightarrow> 'a list option" where
  "entered_by_find_cycles graph [] visited entered = Some entered"
| "entered_by_find_cycles graph (tid # rest) visited entered =
     (if tid \<notin> visited then
        (case dfs_log graph (Enter tid []) visited {} entered of
           Some (Inr (cycle, visited', rec_stack', entered')) \<Rightarrow>
             entered_by_find_cycles graph rest visited' entered'
         | _ \<Rightarrow> None)
      else entered_by_find_cycles graph rest visited entered)"

definition entered_nodes :: "task list \<Rightarrow> int option list option" where
  "entered_nodes tasks =
     (case build_graph tasks ([], []) of
        (graph, task_map) \<Rightarrow> entered_by_find_cycles graph (map fst graph) {} [])"

fun fresh_entry :: "'a frame \<Rightarrow> 'a set \<Rightarrow> bool" where
  "fresh_entry (Enter node path) visited = (node \<notin> visited)"
| "fresh_entry (For_neighbors node path ns) visited = True"

text \<open>The dictionary \<^verbatim>\<open>{'id': i, 'dependencies': ds}\<close>, as the tests build it.\<close>

definition id_deps_task :: "int \<Rightarrow> int list \<Rightarrow> task" where
  "id_deps_task i ds =
     \<lparr>task_id = Some i, title = None, due_date = PyNone, estimated_hours = PyNone,
      importance = PyNone, dependencies = Some ds\<rparr>"

text \<open>
  A structurally typed task, after the data model of the specification: the due date is a
  string or a date, the estimated hours are a float and the importance is an integer. Their
  values are not constrained.
\<close>

fun is_date_value :: "pyval \<Rightarrow> bool" where
  "is_date_value (PyStr s) = True"
| "is_date_value (PyDate d) = True"
| "is_date_value _ = False"

fun is_int_value :: "pyval \<Rightarrow> bool" where
  "is_int_value (PyInt n) = True"
| "is_int_value _ = False"

fun is_float_value :: "pyval \<Rightarrow> bool" where
  "is_float_value (PyFloat x) = True"
| "is_float_value _ = False"

definition structurally_typed :: "task \<Rightarrow> bool" where
  "structurally_typed t =
     (is_date_value (due_date t) \<and> is_float_value (estimated_hours t)
      \<and> is_int_value (importance t))"

text \<open>
  A structurally valid task: a structurally typed task whose values pass
  \<^verbatim>\<open>validate_task_data\<close>: a title that is not blank and has at most 255 characters, a due
  date the library parses, positive hours, an importance from 1 to 10.
\<close>

definition structurally_valid :: "(string \<Rightarrow> date option) \<Rightarrow> task \<Rightarrow> bool" where
  "structurally_valid strptime t =
     ((case title t of None \<Rightarrow> False | Some s \<Rightarrow> \<not> list_all py_isspace s \<and> length s \<le> 255)
      \<and> (case due_date t of PyStr s \<Rightarrow> strptime s \<noteq> None | _ \<Rightarrow> False)
      \<and> (case estimated_hours t of PyFloat h \<Rightarrow> 0 < h | _ \<Rightarrow> False)
      \<and> (case importance t of PyInt n \<Rightarrow> 1 \<le> n \<and> n \<le> 10 | _ \<Rightarrow> False))"

text \<open>The weight vector \<^verbatim>\<open>calculate_final_score\<close> uses for a strategy name.\<close>

definition strategy_weights :: "string \<Rightarrow> factors" where
  "strategy_weights strat =
     (case map_of STRATEGY_WEIGHTS strat of
        None \<Rightarrow> \<lparr>f_urgency = 1 / 4, f_importance = 1 / 4, f_effort = 1 / 4, f_dependency = 1 / 4\<rparr>
      | Some w \<Rightarrow> w)"

text \<open>
  The explanation of a final score with another strategy name in its second hole.
\<close>

fun set_strategy_name :: "string \<Rightarrow> explanation \<Rightarrow> explanation" where
  "set_strategy_name s (Template tm (a # Str_arg old # args)) = Template tm (a # Str_arg s # args)"
| "set_strategy_name s e = e"

text \<open>
  Example inputs: a date parser that knows 2 December 2025 and 7 December 2025 by their
  ordinals, and a task with all its fields.
\<close>

definition example_strptime :: "string \<Rightarrow> date option" where
  "example_strptime s =
     (if s = ''2025-12-02'' then Some 739587 else if s = ''2025-12-07'' then Some 739592
      else None)"

definition example_task ::
  "int option \<Rightarrow> string \<Rightarrow> string \<Rightarrow> real \<Rightarrow> int \<Rightarrow> int list \<Rightarrow> task"
where
  "example_task i name due hours rating ds =
     \<lparr>task_id = i, title = Some name, due_date = PyStr due,
      estimated_hours = PyFloat hours, importance = PyInt rating, dependencies = Some ds\<rparr>"

section \<open>Properties\<close>

subsection \<open>Importance\<close>




subsection \<open>Effort\<close>




subsection \<open>Urgency\<close>

lemma urgency_by_days_left_mono:
  assumes "0 \<le> d1" "d1 < d2"
  shows "fst (urgency_by_days_left d2) \<le> fst (urgency_by_days_left d1)"
  using assms by (auto simp: urgency_by_days_left_def max_def diff_divide_distrib)

lemma calculate_urgency_score_denotes:
  assumes "due_date_denotes strptime v = Some d"
  shows "calculate_urgency_score strptime clock v today_arg =
           Inr (urgency_by_days_left (d - (case today_arg of None \<Rightarrow> clock | Some t \<Rightarrow> t)))"
  using assms
  by (cases v) (simp_all add: due_date_denotes_def calculate_urgency_score_def)

text \<open>
  C4. The urgency score does not increase with \<^verbatim>\<open>days_left\<close> from 0 on: of two due
  dates, given as strings or as dates, with \<open>0 \<le> days_left\<^sub>1 < days_left\<^sub>2\<close>, the
  first scores at least as much as the second; and a task due tomorrow scores strictly more
  than a task due in 30 days.
\<close>

theorem urgency_non_increasing:
  "(due_date_denotes strptime v1 = Some due1 \<and> due_date_denotes strptime v2 = Some due2
      \<and> today = (case today_arg of None \<Rightarrow> clock | Some t \<Rightarrow> t)
      \<and> 0 \<le> due1 - today \<and> due1 - today < due2 - today
    \<longrightarrow> (\<exists>s1 e1 s2 e2.
           calculate_urgency_score strptime clock v1 today_arg = Inr (s1, e1)
         \<and> calculate_urgency_score strptime clock v2 today_arg = Inr (s2, e2)
         \<and> s2 \<le> s1))
   \<and> (\<exists>s1 e1 s30 e30.
         calculate_urgency_score strptime clock (PyDate (d + 1)) (Some d) = Inr (s1, e1)
       \<and> calculate_urgency_score strptime clock (PyDate (d + 30)) (Some d) = Inr (s30, e30)
       \<and> s30 < s1)"
proof (intro conjI impI)
  assume a: "due_date_denotes strptime v1 = Some due1 \<and> due_date_denotes strptime v2 = Some due2
      \<and> today = (case today_arg of None \<Rightarrow> clock | Some t \<Rightarrow> t)
      \<and> 0 \<le> due1 - today \<and> due1 - today < due2 - today"
  obtain s1 e1 where r1: "urgency_by_days_left (due1 - today) = (s1, e1)"
    by (cases "urgency_by_days_left (due1 - today)")
  obtain s2 e2 where r2: "urgency_by_days_left (due2 - today) = (s2, e2)"
    by (cases "urgency_by_days_left (due2 - today)")
  have "s2 \<le> s1"
    using urgency_by_days_left_mono [of "due1 - today" "due2 - today"] a r1 r2 by simp
  then show "\<exists>s1 e1 s2 e2.
           calculate_urgency_score strptime clock v1 today_arg = Inr (s1, e1)
         \<and> calculate_urgency_score strptime clock v2 today_arg = Inr (s2, e2)
         \<and> s2 \<le> s1"
    using r1 r2 a
      calculate_urgency_score_denotes [of strptime v1 due1 clock today_arg]
      calculate_urgency_score_denotes [of strptime v2 due2 clock today_arg]
    by simp
next
  show "\<exists>s1 e1 s30 e30.
         calculate_urgency_score strptime clock (PyDate (d + 1)) (Some d) = Inr (s1, e1)
       \<and> calculate_urgency_score strptime clock (PyDate (d + 30)) (Some d) = Inr (s30, e30)
       \<and> s30 < s1"
  proof -
    have a: "calculate_urgency_score strptime clock (PyDate (d + 1)) (Some d) =
               Inr (77 / 10, Template ''Due in {} days - High urgency'' [Int_arg 1])"
      by (simp add: calculate_urgency_score_def urgency_by_days_left_def)
    have b: "calculate_urgency_score strptime clock (PyDate (d + 30)) (Some d) =
               Inr (14 / 10, Template ''Due in {} days - Low urgency'' [Int_arg 30])"
      by (simp add: calculate_urgency_score_def urgency_by_days_left_def)
    have "(14 / 10 :: real) < 77 / 10" by simp
    with a b show ?thesis by blast
  qed
qed

theorem urgency_non_increasing_witness:
  "due_date_denotes (\<lambda>s. if s = ''2025-12-02'' then Some 739587 else None)
      (PyStr ''2025-12-02'') = Some 739587
   \<and> due_date_denotes (\<lambda>s. if s = ''2025-12-02'' then Some 739587 else None)
      (PyDate 739616) = Some 739616
   \<and> (0 :: int) \<le> 739587 - 739586 \<and> (739587 :: int) - 739586 < 739616 - 739586
   \<and> (\<exists>s1 e1 s2 e2.
         calculate_urgency_score (\<lambda>s. if s = ''2025-12-02'' then Some 739587 else None) 739586
           (PyStr ''2025-12-02'') None = Inr (s1, e1)
       \<and> calculate_urgency_score (\<lambda>s. if s = ''2025-12-02'' then Some 739587 else None) 739586
           (PyDate 739616) None = Inr (s2, e2)
       \<and> s2 \<le> s1)"
  using urgency_non_increasing [where strptime = "\<lambda>s. if s = ''2025-12-02'' then Some 739587 else None"
      and ?v1.0 = "PyStr ''2025-12-02''" and ?due1.0 = 739587 and ?v2.0 = "PyDate 739616"
      and ?due2.0 = 739616 and today = 739586 and today_arg = None and clock = 739586]
  by (simp add: due_date_denotes_def)

subsection \<open>Dependencies\<close>

lemma count_blocked_filter:
  "count_blocked tid ts (n, bl) =
     (n + length (tasks_listing tid ts), bl @ map get_title (tasks_listing tid ts))"
  by (induction ts arbitrary: n bl) (simp_all add: tasks_listing_def)

lemma calculate_dependency_score_value:
  "\<exists>e. calculate_dependency_score tid batch =
     Inr (let c = length (tasks_listing tid batch) in
          if c = 0 then 3 else if c = 1 then 6 else if c = 2 then 8
          else min 10 (8 + (real c - 2) * (1 / 2)), e)"
proof -
  have cb: "count_blocked tid batch (0, []) =
      (length (tasks_listing tid batch), map get_title (tasks_listing tid batch))"
    by (simp add: count_blocked_filter)
  show ?thesis
  proof (cases "tasks_listing tid batch")
    case Nil
    then show ?thesis by (simp add: calculate_dependency_score_def cb)
  next
    case (Cons t ts)
    then show ?thesis by (simp add: calculate_dependency_score_def cb Let_def)
  qed
qed

lemma other_tasks_listing_no_self:
  assumes "\<forall>t\<in>set batch. task_id t = tid \<longrightarrow> tid \<notin> set (map Some (get_dependencies t))"
  shows "other_tasks_listing tid batch = length (tasks_listing tid batch)"
  unfolding other_tasks_listing_def tasks_listing_def
  using assms by (intro arg_cong [where f = length] filter_cong) auto

text \<open>
  C5 (as amended). The dependency score of an id counts the tasks of the batch that list
  the id among their dependencies, a task listing its own id included, and maps the count
  0 to 3, 1 to 6, 2 to 8 and a greater count \<open>c\<close> to \<open>min 10 (8 + (c - 2) / 2)\<close>. The count
  is the number of other tasks listing the id whenever no task of that id lists itself.
\<close>

theorem dependency_score_counts_listing_tasks:
  "(\<exists>e. calculate_dependency_score tid batch =
      Inr (let c = length (tasks_listing tid batch) in
           if c = 0 then 3 else if c = 1 then 6 else if c = 2 then 8
           else min 10 (8 + (real c - 2) * (1 / 2)), e))
   \<and> ((\<forall>t\<in>set batch. task_id t = tid \<longrightarrow> tid \<notin> set (map Some (get_dependencies t)))
        \<longrightarrow> length (tasks_listing tid batch) = other_tasks_listing tid batch)"
  using calculate_dependency_score_value [of tid batch] other_tasks_listing_no_self [of batch tid]
  by simp

theorem dependency_score_counts_listing_tasks_witness:
  "length (tasks_listing (Some 1)
      [id_deps_task 1 [], id_deps_task 2 [1], id_deps_task 3 [1], id_deps_task 4 [1],
       id_deps_task 5 [1, 2], id_deps_task 6 [3, 1]]) = 5
   \<and> other_tasks_listing (Some 1)
      [id_deps_task 1 [], id_deps_task 2 [1], id_deps_task 3 [1], id_deps_task 4 [1],
       id_deps_task 5 [1, 2], id_deps_task 6 [3, 1]] = 5
   \<and> (\<exists>e. calculate_dependency_score (Some 1)
      [id_deps_task 1 [], id_deps_task 2 [1], id_deps_task 3 [1], id_deps_task 4 [1],
       id_deps_task 5 [1, 2], id_deps_task 6 [3, 1]] = Inr (19 / 2, e))"
  using dependency_score_counts_listing_tasks [of "Some 1"
      "[id_deps_task 1 [], id_deps_task 2 [1], id_deps_task 3 [1], id_deps_task 4 [1],
        id_deps_task 5 [1, 2], id_deps_task 6 [3, 1]]"]
  by (simp add: tasks_listing_def id_deps_task_def get_dependencies_def)

text \<open>
  C5 as stated fails on a task that depends on itself: no other task lists the id 1, and
  the score is 6, not 3.
\<close>

theorem dependency_score_self_dependency_counterexample:
  "other_tasks_listing (Some 1) [id_deps_task 1 [1]] = 0
   \<and> calculate_dependency_score (Some 1) [id_deps_task 1 [1]] =
       Inr (6, Template ''Blocks 1 task: {}'' [Label_arg (Task_no (Some 1))])"
  by (simp add: other_tasks_listing_def calculate_dependency_score_def id_deps_task_def
      get_dependencies_def get_title_def)

subsection \<open>Cycle detection\<close>

lemma graph_get_not_key: "node \<notin> fst ` set graph \<Longrightarrow> graph_get graph node = []"
  using map_of_eq_None_iff [of graph node] by (simp add: graph_get_def)

lemma card_unvisited_mono:
  "visited \<subseteq> visited' \<Longrightarrow> card (fst ` set graph - visited') \<le> card (fst ` set graph - visited)"
  by (rule card_mono) auto

lemma card_unvisited_less:
  "node \<in> fst ` set graph \<Longrightarrow> node \<notin> visited \<Longrightarrow>
   card (fst ` set graph - insert node visited) < card (fst ` set graph - visited)"
  by (rule psubset_card_mono) auto

lemma dfs_returns:
  "\<exists>r. dfs graph frame visited rec_stack = Some r
     \<and> (\<forall>cycle visited' rec_stack'. r = Inr (cycle, visited', rec_stack') \<longrightarrow> visited \<subseteq> visited')"
proof -
  have "wf (less_than <*lex*> less_than)" by (intro wf_lex_prod wf_less_than)
  then show ?thesis
  proof (induction "dfs_measure graph frame visited" arbitrary: frame visited rec_stack
      rule: wf_induct_rule)
    case less
    note IH = less.hyps
    show ?case
    proof (cases frame)
      case (Enter node path)
      have "(dfs_measure graph (For_neighbors node (path @ [node]) (graph_get graph node))
               (insert node visited), dfs_measure graph frame visited)
            \<in> less_than <*lex*> less_than"
        by (simp add: Enter dfs_measure_def)
      from IH [OF this, of "insert node rec_stack"] show ?thesis
        by (subst dfs.simps) (auto simp: Enter)
    next
      case (For_neighbors node path ns)
      show ?thesis
      proof (cases ns)
        case Nil
        then show ?thesis by (subst dfs.simps) (simp add: For_neighbors)
      next
        case (Cons neighbor rest)
        have rest_less: "(dfs_measure graph (For_neighbors node path rest) v,
                 dfs_measure graph frame visited) \<in> less_than <*lex*> less_than"
          if "visited \<subseteq> v" for v
          using card_unvisited_mono [OF that, of graph]
          by (auto simp: For_neighbors Cons dfs_measure_def)
        show ?thesis
        proof (cases "neighbor \<in> visited")
          case True
          from IH [OF rest_less [OF subset_refl], of rec_stack] show ?thesis
            by (subst dfs.simps) (auto simp: For_neighbors Cons True split: option.split)
        next
          case False
          have "(dfs_measure graph (Enter neighbor path) visited,
                 dfs_measure graph frame visited) \<in> less_than <*lex*> less_than"
          proof (cases "neighbor \<in> fst ` set graph")
            case True
            with False card_unvisited_less [of neighbor graph visited] show ?thesis
              by (simp add: For_neighbors Cons dfs_measure_def)
          next
            case False
            then show ?thesis
              by (simp add: For_neighbors Cons dfs_measure_def graph_get_not_key)
          qed
          from IH [OF this, of rec_stack] obtain r1 where
            r1: "dfs graph (Enter neighbor path) visited rec_stack = Some r1"
            and sub1: "\<And>c v rs. r1 = Inr (c, v, rs) \<Longrightarrow> visited \<subseteq> v"
            by blast
          show ?thesis
          proof (cases r1)
            case (Inl e)
            then show ?thesis
              by (subst dfs.simps) (simp add: For_neighbors Cons False r1)
          next
            case (Inr res)
            obtain c v rs where res: "res = (c, v, rs)" by (cases res)
            have v: "visited \<subseteq> v" using sub1 Inr res by simp
            show ?thesis
            proof (cases "truthy c")
              case True
              then show ?thesis
                using v by (subst dfs.simps) (simp add: For_neighbors Cons False r1 Inr res)
            next
              case nt: False
              from IH [OF rest_less [OF v], of rs] obtain r2 where
                r2: "dfs graph (For_neighbors node path rest) v rs = Some r2"
                and sub2: "\<And>c' v' rs'. r2 = Inr (c', v', rs') \<Longrightarrow> v \<subseteq> v'"
                by blast
              have "dfs graph frame visited rec_stack = Some r2"
                using nt by (subst dfs.simps) (simp add: For_neighbors Cons False r1 Inr res r2)
              then show ?thesis
                using v sub2 by blast
            qed
          qed
        qed
      qed
    qed
  qed
qed

lemma list_index_Some:
  "x \<in> set xs \<Longrightarrow> \<exists>i. list_index xs x = Some i \<and> i < length xs \<and> xs ! i = x"
  by (induction xs) auto

lemma is_path_drop: "is_path graph p \<Longrightarrow> is_path graph (drop i p)"
  using successively_append_iff [of "\<lambda>a b. (a, b) \<in> edges graph" "take i p" "drop i p"]
  by (simp add: is_path_def)

lemma back_edge_cycle:
  assumes p: "is_path graph path" and ne: "path \<noteq> []"
    and e: "neighbor \<in> set (graph_get graph (last path))"
    and i: "list_index path neighbor = Some i"
    and mem: "neighbor \<in> set path"
  shows "is_cycle graph (drop i path @ [neighbor])"
proof -
  from list_index_Some [OF mem] i have il: "i < length path" and nth: "path ! i = neighbor"
    by auto
  have d: "drop i path \<noteq> []" using il by simp
  have hd: "hd (drop i path @ [neighbor]) = neighbor"
    using d il nth by (simp add: hd_drop_conv_nth)
  have "is_path graph (drop i path @ [neighbor])"
    using is_path_drop [OF p, of i] d e il
    by (simp add: is_path_def successively_append_iff last_drop edges_def)
  moreover have "2 \<le> length (drop i path @ [neighbor])" using il by simp
  ultimately show ?thesis using hd by (simp add: is_cycle_def)
qed

lemma is_cycle_truthy: "is_cycle graph c \<Longrightarrow> truthy (Some c)"
  by (cases c) (simp_all add: is_cycle_def)

lemma dfs_invariant:
  assumes "dfs graph frame visited rec_stack = Some y"
    and "frame_ok graph frame visited rec_stack"
  shows "dfs_post graph frame visited rec_stack y"
  using assms
proof (induction graph frame visited rec_stack y
    rule: dfs.raw_induct [rotated, consumes 1, case_names step])
  case (step dfs' graph frame visited rec_stack y)
  note IH = step.IH and body = step.hyps and ok = step.prems
  show ?case
  proof (cases frame)
    case (Enter node path)
    let ?f = "For_neighbors node (path @ [node]) (graph_get graph node)"
    from body have call: "dfs' graph ?f (insert node visited) (insert node rec_stack) = Some y"
      by (simp add: Enter)
    have "frame_ok graph ?f (insert node visited) (insert node rec_stack)"
      using ok by (auto simp: Enter)
    from IH [OF call this] obtain c v rs where
      y: "y = Inr (c, v, rs)" and v: "insert node visited \<subseteq> v"
      and c: "c = None \<longrightarrow> rs = insert node rec_stack - {node}"
        "\<forall>cyc. c = Some cyc \<longrightarrow> is_cycle graph cyc"
      by (auto simp: dfs_post_def)
    have "node \<notin> rec_stack" using ok by (auto simp: Enter)
    with y v c show ?thesis
      by (simp add: dfs_post_def Enter)
  next
    case (For_neighbors node path ns)
    show ?thesis
    proof (cases ns)
      case Nil
      with body ok show ?thesis
        by (auto simp: For_neighbors dfs_post_def)
    next
      case (Cons neighbor rest)
      let ?rest = "For_neighbors node path rest"
      have ok_rest: "frame_ok graph ?rest v rec_stack" if "visited \<subseteq> v" for v
        using ok that by (auto simp: For_neighbors Cons)
      show ?thesis
      proof (cases "neighbor \<in> visited")
        case True
        show ?thesis
        proof (cases "neighbor \<in> rec_stack")
          case in_stack: True
          then have mem: "neighbor \<in> set path" using ok by (auto simp: For_neighbors)
          from list_index_Some [OF mem] obtain i where i: "list_index path neighbor = Some i"
            by blast
          have "is_cycle graph (drop i path @ [neighbor])"
            using ok by (intro back_edge_cycle i mem) (auto simp: For_neighbors Cons)
          moreover have "y = Inr (Some (drop i path @ [neighbor]), visited, rec_stack)"
            using body by (simp add: For_neighbors Cons True in_stack i)
          ultimately show ?thesis by (simp add: dfs_post_def)
        next
          case False
          with body have call: "dfs' graph ?rest visited rec_stack = Some y"
            by (simp add: For_neighbors Cons True)
          from IH [OF call ok_rest [OF subset_refl]] show ?thesis
            by (simp add: dfs_post_def For_neighbors)
        qed
      next
        case False
        from body obtain r1 where
          r1: "dfs' graph (Enter neighbor path) visited rec_stack = Some r1"
          and cont: "(case r1 of Inl e \<Rightarrow> Some (Inl e)
                      | Inr (cycle, visited', rec_stack') \<Rightarrow>
                          if truthy cycle then Some (Inr (cycle, visited', rec_stack'))
                          else dfs' graph ?rest visited' rec_stack') = Some y"
          by (auto simp: For_neighbors Cons False bind_eq_Some_conv)
        have "frame_ok graph (Enter neighbor path) visited rec_stack"
          using ok False
          by (auto simp: For_neighbors Cons is_path_def successively_append_iff edges_def)
        from IH [OF r1 this] obtain c v rs where
          r1_eq: "r1 = Inr (c, v, rs)" and v: "visited \<subseteq> v"
          and c: "c = None \<longrightarrow> rs = rec_stack"
            "\<forall>cyc. c = Some cyc \<longrightarrow> is_cycle graph cyc"
          by (auto simp: dfs_post_def)
        show ?thesis
        proof (cases c)
          case None
          with cont r1_eq c have call: "dfs' graph ?rest v rec_stack = Some y"
            by simp
          from IH [OF call ok_rest [OF v]] v show ?thesis
            by (auto simp: dfs_post_def For_neighbors)
        next
          case (Some cyc)
          with c have "is_cycle graph cyc" by simp
          with cont r1_eq Some have "y = Inr (Some cyc, v, rs)"
            by (simp add: is_cycle_truthy)
          with \<open>is_cycle graph cyc\<close> v show ?thesis
            by (simp add: dfs_post_def)
        qed
      qed
    qed
  qed
qed



lemma has_cycle_util_top:
  assumes "tid \<notin> visited"
  shows "\<exists>c v rs. has_cycle_util graph tid visited {} [] = Some (Inr (c, v, rs))
           \<and> visited \<subseteq> v
           \<and> (c = None \<or> (\<exists>cyc. c = Some cyc \<and> is_cycle graph cyc))"
proof -
  obtain r where r: "dfs graph (Enter tid []) visited {} = Some r"
    using dfs_returns [of graph "Enter tid []" visited "{}"] by blast
  have "frame_ok graph (Enter tid []) visited {}"
    using assms by (simp add: is_path_def)
  from dfs_invariant [OF r this] r show ?thesis
    by (cases "fst (projr r)") (auto simp: dfs_post_def has_cycle_util_def)
qed

lemma find_cycles_returns:
  "\<exists>cycles'. find_cycles graph task_map keys visited cycles = Some (Inr cycles')"
proof (induction keys arbitrary: visited cycles)
  case Nil
  then show ?case by simp
next
  case (Cons tid rest)
  show ?case
  proof (cases "tid \<in> visited")
    case True
    with Cons.IH show ?thesis by simp
  next
    case False
    from has_cycle_util_top [OF False, of graph] obtain c v rs where
      "has_cycle_util graph tid visited {} [] = Some (Inr (c, v, rs))" by blast
    with False Cons.IH [of v] show ?thesis by simp
  qed
qed




lemma detect_returns:
  "\<exists>cycles. detect_circular_dependencies batch = Some (Inr (cycles \<noteq> [], cycles))"
proof -
  obtain graph task_map where b: "build_graph batch ([], []) = (graph, task_map)"
    by (cases "build_graph batch ([], [])")
  from find_cycles_returns [of graph task_map "map fst graph" "{}" "[]"] b show ?thesis
    by (auto simp: detect_circular_dependencies_def)
qed


lemma has_cycle_util_not_key:
  assumes "node \<notin> fst ` set graph"
  shows "has_cycle_util graph node visited rec_stack path =
           Some (Inr (None, insert node visited, insert node rec_stack - {node}))"
  unfolding has_cycle_util_def
  by (subst dfs.simps, simp, subst dfs.simps) (simp add: graph_get_not_key [OF assms])





lemma dfs_log_erasure:
  assumes "dfs graph frame visited rec_stack = Some y"
  shows "\<exists>l'. dfs_log graph frame visited rec_stack l = Some (with_log y l')"
  using assms
proof (induction graph frame visited rec_stack y arbitrary: l
    rule: dfs.raw_induct [rotated, consumes 1, case_names step])
  case (step dfs' graph frame visited rec_stack y)
  note IH = step.IH and body = step.hyps
  show ?case
  proof (cases frame)
    case (Enter node path)
    from body have "dfs' graph (For_neighbors node (path @ [node]) (graph_get graph node))
        (insert node visited) (insert node rec_stack) = Some y"
      by (simp add: Enter)
    from IH [OF this, of "l @ [node]"] show ?thesis
      by (subst dfs_log.simps) (simp add: Enter)
  next
    case (For_neighbors node path ns)
    show ?thesis
    proof (cases ns)
      case Nil
      with body show ?thesis
        by (subst dfs_log.simps) (auto simp: For_neighbors split: if_splits)
    next
      case (Cons neighbor rest)
      show ?thesis
      proof (cases "neighbor \<in> visited")
        case True
        show ?thesis
        proof (cases "neighbor \<in> rec_stack")
          case in_stack: True
          with body show ?thesis
            by (subst dfs_log.simps)
               (auto simp: For_neighbors Cons True split: option.splits)
        next
          case False
          with body have "dfs' graph (For_neighbors node path rest) visited rec_stack = Some y"
            by (simp add: For_neighbors Cons True)
          from IH [OF this, of l] show ?thesis
            by (subst dfs_log.simps) (simp add: For_neighbors Cons True False)
        qed
      next
        case False
        from body obtain r1 where
          r1: "dfs' graph (Enter neighbor path) visited rec_stack = Some r1"
          and cont: "(case r1 of Inl e \<Rightarrow> Some (Inl e)
                      | Inr (cycle, visited', rec_stack') \<Rightarrow>
                          if truthy cycle then Some (Inr (cycle, visited', rec_stack'))
                          else dfs' graph (For_neighbors node path rest) visited' rec_stack')
                     = Some y"
          by (auto simp: For_neighbors Cons False bind_eq_Some_conv)
        from IH [OF r1, of l] obtain l1 where
          l1: "dfs_log graph (Enter neighbor path) visited rec_stack l = Some (with_log r1 l1)"
          by blast
        show ?thesis
        proof (cases r1)
          case (Inl e)
          with cont l1 show ?thesis
            by (subst dfs_log.simps) (auto simp: For_neighbors Cons False)
        next
          case (Inr res)
          obtain c v rs where res: "res = (c, v, rs)" by (cases res)
          show ?thesis
          proof (cases "truthy c")
            case True
            with cont l1 Inr res show ?thesis
              by (subst dfs_log.simps) (auto simp: For_neighbors Cons False)
          next
            case nt: False
            with cont Inr res have
              "dfs' graph (For_neighbors node path rest) v rs = Some y" by simp
            from IH [OF this, of l1] obtain l2 where
              "dfs_log graph (For_neighbors node path rest) v rs l1 = Some (with_log y l2)"
              by blast
            with l1 Inr res nt show ?thesis
              by (subst dfs_log.simps) (auto simp: For_neighbors Cons False)
          qed
        qed
      qed
    qed
  qed
qed

lemma dfs_log_distinct:
  assumes "dfs_log graph frame visited rec_stack l = Some y"
    and "y = Inr (c, v, rs, l')"
    and "fresh_entry frame visited" and "set l \<subseteq> visited" and "distinct l"
  shows "set l' \<subseteq> v \<and> distinct l'"
  using assms
proof (induction graph frame visited rec_stack l y arbitrary: c v rs l'
    rule: dfs_log.raw_induct [rotated, consumes 1, case_names step])
  case (step dfs' graph frame visited rec_stack l y)
  note IH = step.IH and body = step.hyps and y = step.prems(1) and fresh = step.prems(2)
    and sub = step.prems(3) and dist = step.prems(4)
  show ?case
  proof (cases frame)
    case (Enter node path)
    from body have call: "dfs' graph (For_neighbors node (path @ [node]) (graph_get graph node))
        (insert node visited) (insert node rec_stack) (l @ [node]) = Some y"
      by (simp add: Enter)
    from fresh sub dist have "set (l @ [node]) \<subseteq> insert node visited" "distinct (l @ [node])"
      by (auto simp: Enter)
    from IH [OF call y _ this] show ?thesis by simp
  next
    case (For_neighbors node path ns)
    show ?thesis
    proof (cases ns)
      case Nil
      with body y sub dist show ?thesis
        by (auto simp: For_neighbors split: if_splits)
    next
      case (Cons neighbor rest)
      show ?thesis
      proof (cases "neighbor \<in> visited")
        case True
        show ?thesis
        proof (cases "neighbor \<in> rec_stack")
          case in_stack: True
          with body y sub dist show ?thesis
            by (auto simp: For_neighbors Cons True split: option.splits)
        next
          case False
          with body have call: "dfs' graph (For_neighbors node path rest) visited rec_stack l = Some y"
            by (simp add: For_neighbors Cons True)
          from IH [OF call y _ sub dist] show ?thesis by simp
        qed
      next
        case False
        from body obtain r1 where
          r1: "dfs' graph (Enter neighbor path) visited rec_stack l = Some r1"
          and cont: "(case r1 of Inl e \<Rightarrow> Some (Inl e)
                      | Inr (cycle, visited', rec_stack', entered') \<Rightarrow>
                          if truthy cycle then Some (Inr (cycle, visited', rec_stack', entered'))
                          else dfs' graph (For_neighbors node path rest) visited' rec_stack'
                                 entered') = Some y"
          by (auto simp: For_neighbors Cons False bind_eq_Some_conv)
        from cont y obtain c1 v1 rs1 l1 where r1_eq: "r1 = Inr (c1, v1, rs1, l1)"
          by (cases r1) auto
        from IH [OF r1 r1_eq _ sub dist] False have inv1: "set l1 \<subseteq> v1" "distinct l1"
          by simp_all
        show ?thesis
        proof (cases "truthy c1")
          case True
          with cont r1_eq y inv1 show ?thesis by simp
        next
          case nt: False
          with cont r1_eq have call:
            "dfs' graph (For_neighbors node path rest) v1 rs1 l1 = Some y" by simp
          from IH [OF call y _ inv1] show ?thesis by simp
        qed
      qed
    qed
  qed
qed

lemma dfs_log_from_dfs:
  assumes "dfs graph frame visited rec_stack = Some (Inr (c, v, rs))"
  shows "\<exists>l'. dfs_log graph frame visited rec_stack l = Some (Inr (c, v, rs, l'))"
  using dfs_log_erasure [OF assms, of l] by simp

lemma entered_by_find_cycles_distinct:
  assumes "set l \<subseteq> visited" and "distinct l"
  shows "\<exists>l'. entered_by_find_cycles graph keys visited l = Some l' \<and> distinct l'"
  using assms
proof (induction keys arbitrary: visited l)
  case Nil
  then show ?case by simp
next
  case (Cons tid rest)
  show ?case
  proof (cases "tid \<in> visited")
    case True
    with Cons.IH [OF Cons.prems] show ?thesis by simp
  next
    case False
    from has_cycle_util_top [OF False, of graph] obtain c v rs where
      "dfs graph (Enter tid []) visited {} = Some (Inr (c, v, rs))"
      by (auto simp: has_cycle_util_def)
    from dfs_log_from_dfs [OF this, of l] obtain l1 where
      l1: "dfs_log graph (Enter tid []) visited {} l = Some (Inr (c, v, rs, l1))" by blast
    from dfs_log_distinct [OF l1 refl _ Cons.prems] False
    have "set l1 \<subseteq> v" "distinct l1" by simp_all
    from Cons.IH [OF this] l1 False show ?thesis by simp
  qed
qed

lemma entered_nodes_distinct: "\<exists>l. entered_nodes batch = Some l \<and> distinct l"
proof -
  obtain graph task_map where b: "build_graph batch ([], []) = (graph, task_map)"
    by (cases "build_graph batch ([], [])")
  from entered_by_find_cycles_distinct [of "[]" "{}" graph "map fst graph"] b show ?thesis
    by (simp add: entered_nodes_def)
qed

lemma has_cycle_util_returns:
  "\<exists>r. has_cycle_util graph node visited rec_stack path = Some r
     \<and> (\<forall>c v rs. r = Inr (c, v, rs) \<longrightarrow> insert node visited \<subseteq> v)"
  using dfs_returns [of graph "For_neighbors node (path @ [node]) (graph_get graph node)"
      "insert node visited" "insert node rec_stack"]
  unfolding has_cycle_util_def by (subst dfs.simps) simp

text \<open>
  C10. \<^verbatim>\<open>detect_circular_dependencies\<close> returns on every batch, and every call of
  \<^verbatim>\<open>has_cycle_util\<close> returns, whatever its arguments; the call leaves its node in
  \<^verbatim>\<open>visited\<close>, on top of what was visited before. On an id that is no key of the graph
  the call returns at once: the id is marked visited, no cycle is found, and nothing else
  is visited. The nodes a run enters are pairwise distinct: each node is entered at most
  once.
\<close>

theorem detect_circular_dependencies_terminates:
  "(\<exists>r. detect_circular_dependencies batch = Some r)
   \<and> (\<exists>r. has_cycle_util graph node visited rec_stack path = Some r
          \<and> (\<forall>c v rs. r = Inr (c, v, rs) \<longrightarrow> insert node visited \<subseteq> v))
   \<and> (node \<notin> fst ` set graph \<longrightarrow>
        has_cycle_util graph node visited rec_stack path =
          Some (Inr (None, insert node visited, insert node rec_stack - {node})))
   \<and> (\<exists>log. entered_nodes batch = Some log \<and> distinct log)"
  using detect_returns [of batch] has_cycle_util_returns [of graph node visited rec_stack path]
    has_cycle_util_not_key [of node graph visited rec_stack path]
    entered_nodes_distinct [of batch]
  by blast

theorem detect_circular_dependencies_terminates_witness:
  "Some (99 :: int) \<notin> fst ` set [(Some (1 :: int), [Some 99])]
   \<and> has_cycle_util [(Some (1 :: int), [Some 99])] (Some 99) {Some 1} {Some 1} [Some 1] =
       Some (Inr (None, {Some 99, Some 1}, {Some 1}))
   \<and> (\<exists>r. detect_circular_dependencies [id_deps_task 1 [99, 2], id_deps_task 2 [99, 1]]
          = Some r)
   \<and> (\<exists>log. entered_nodes [id_deps_task 1 [99, 2], id_deps_task 2 [99, 1]] = Some log
          \<and> distinct log)"
  using detect_circular_dependencies_terminates
    [where batch = "[id_deps_task 1 [99, 2], id_deps_task 2 [99, 1]]"
       and node = "Some (99 :: int)"
       and graph = "[(Some 1, [Some 99])]" and visited = "{Some 1}" and rec_stack = "{Some 1}"
       and path = "[Some 1]"]
  by auto

subsection \<open>Final score\<close>

lemma typed_factor_scores:
  assumes "structurally_typed t"
  shows "\<exists>u ue i ie e ee d de.
           calculate_urgency_score strptime clock (due_date t) None = Inr (u, ue)
         \<and> calculate_importance_score (importance t) = Inr (i, ie)
         \<and> calculate_effort_score (estimated_hours t) = Inr (e, ee)
         \<and> calculate_dependency_score (task_id t) batch = Inr (d, de)
         \<and> (due_date_denotes strptime (due_date t) = None \<longrightarrow> u = 5)
         \<and> ((\<exists>n. importance t = PyInt n \<and> (n < 1 \<or> 10 < n)) \<longrightarrow> i = 5)
         \<and> ((\<exists>h. estimated_hours t = PyFloat h \<and> h \<le> 0) \<longrightarrow> e = 5)"
proof -
  have "\<exists>u ue. calculate_urgency_score strptime clock (due_date t) None = Inr (u, ue)
          \<and> (due_date_denotes strptime (due_date t) = None \<longrightarrow> u = 5)"
  proof (cases "due_date_denotes strptime (due_date t)")
    case None
    with assms show ?thesis
      by (cases "due_date t")
         (simp_all add: structurally_typed_def calculate_urgency_score_def due_date_denotes_def)
  next
    case (Some d)
    from calculate_urgency_score_denotes [OF this, of clock None] Some show ?thesis
      by (cases "urgency_by_days_left (d - clock)") simp
  qed
  then obtain u ue where
    u: "calculate_urgency_score strptime clock (due_date t) None = Inr (u, ue)"
    and u5: "due_date_denotes strptime (due_date t) = None \<longrightarrow> u = 5"
    by auto
  have "\<exists>i ie. calculate_importance_score (importance t) = Inr (i, ie)
          \<and> ((\<exists>n. importance t = PyInt n \<and> (n < 1 \<or> 10 < n)) \<longrightarrow> i = 5)"
    using assms
    by (cases "importance t")
       (auto simp: structurally_typed_def calculate_importance_score_def)
  then obtain i ie where i: "calculate_importance_score (importance t) = Inr (i, ie)"
    and i5: "(\<exists>n. importance t = PyInt n \<and> (n < 1 \<or> 10 < n)) \<longrightarrow> i = 5"
    by auto
  have "\<exists>e ee. calculate_effort_score (estimated_hours t) = Inr (e, ee)
          \<and> ((\<exists>h. estimated_hours t = PyFloat h \<and> h \<le> 0) \<longrightarrow> e = 5)"
    using assms
    by (cases "estimated_hours t")
       (auto simp: structurally_typed_def calculate_effort_score_def)
  then obtain e ee where e: "calculate_effort_score (estimated_hours t) = Inr (e, ee)"
    and e5: "(\<exists>h. estimated_hours t = PyFloat h \<and> h \<le> 0) \<longrightarrow> e = 5"
    by auto
  obtain d de where d: "calculate_dependency_score (task_id t) batch = Inr (d, de)"
    using calculate_dependency_score_value [of "task_id t" batch] by blast
  show ?thesis
    by (intro exI conjI) (fact u i e d u5 i5 e5)+
qed

lemma calculate_final_score_Inr:
  assumes "calculate_urgency_score strptime clock (due_date t) None = Inr (u, ue)"
    and "calculate_importance_score (importance t) = Inr (i, ie)"
    and "calculate_effort_score (estimated_hours t) = Inr (e, ee)"
    and "calculate_dependency_score (task_id t) batch = Inr (d, de)"
  shows "\<exists>r. calculate_final_score strptime clock t batch strat = Inr r
     \<and> final_score r = py_round (u * f_urgency (strategy_weights strat)
          + i * f_importance (strategy_weights strat) + e * f_effort (strategy_weights strat)
          + d * f_dependency (strategy_weights strat)) 2
     \<and> breakdown r = \<lparr>f_urgency = u, f_importance = i, f_effort = e, f_dependency = d\<rparr>
     \<and> weights r = strategy_weights strat"
  using assms
  by (simp add: calculate_final_score_def strategy_weights_def STRATEGY_WEIGHTS_def Let_def
      split: option.splits)


text \<open>
  C1. On every structurally typed task, with every batch and every strategy name,
  \<^verbatim>\<open>calculate_final_score\<close> raises nothing and returns its score data, in which the
  urgency is the default 5 when the due date does not parse, the importance is 5 when the
  rating is outside [1,10], and the effort is 5 when the hours are not positive.
\<close>

theorem calculate_final_score_total:
  assumes "structurally_typed t"
  shows "\<exists>r. calculate_final_score strptime clock t batch strat = Inr r
     \<and> (due_date_denotes strptime (due_date t) = None \<longrightarrow> f_urgency (breakdown r) = 5)
     \<and> ((\<exists>n. importance t = PyInt n \<and> (n < 1 \<or> 10 < n)) \<longrightarrow> f_importance (breakdown r) = 5)
     \<and> ((\<exists>h. estimated_hours t = PyFloat h \<and> h \<le> 0) \<longrightarrow> f_effort (breakdown r) = 5)"
proof -
  from typed_factor_scores [OF assms, of strptime clock batch] obtain u ue i ie e ee d de where
    f: "calculate_urgency_score strptime clock (due_date t) None = Inr (u, ue)"
      "calculate_importance_score (importance t) = Inr (i, ie)"
      "calculate_effort_score (estimated_hours t) = Inr (e, ee)"
      "calculate_dependency_score (task_id t) batch = Inr (d, de)"
    and dflt: "due_date_denotes strptime (due_date t) = None \<longrightarrow> u = 5"
      "(\<exists>n. importance t = PyInt n \<and> (n < 1 \<or> 10 < n)) \<longrightarrow> i = 5"
      "(\<exists>h. estimated_hours t = PyFloat h \<and> h \<le> 0) \<longrightarrow> e = 5"
    by auto
  from calculate_final_score_Inr [OF f, of strat] obtain r where
    "calculate_final_score strptime clock t batch strat = Inr r"
    and "breakdown r = \<lparr>f_urgency = u, f_importance = i, f_effort = e, f_dependency = d\<rparr>"
    by auto
  with dflt show ?thesis by simp
qed

theorem calculate_final_score_total_witness:
  "structurally_typed (example_task (Some 1) ''A'' ''12/01/2025'' (- 2) 15 [])
   \<and> (\<exists>r. calculate_final_score example_strptime 739585
              (example_task (Some 1) ''A'' ''12/01/2025'' (- 2) 15 [])
              [example_task (Some 1) ''A'' ''12/01/2025'' (- 2) 15 []] ''HIGH_IMPACT'' = Inr r
          \<and> f_urgency (breakdown r) = 5 \<and> f_importance (breakdown r) = 5
          \<and> f_effort (breakdown r) = 5)"
  using calculate_final_score_total [of "example_task (Some 1) ''A'' ''12/01/2025'' (- 2) 15 []"
      example_strptime 739585 "[example_task (Some 1) ''A'' ''12/01/2025'' (- 2) 15 []]" "''HIGH_IMPACT''"]
  by (simp add: structurally_typed_def example_task_def due_date_denotes_def
      example_strptime_def)




lemma unknown_strategy_lookup:
  assumes "strat \<notin> {''FASTEST_WINS'', ''HIGH_IMPACT'', ''DEADLINE_DRIVEN'', ''SMART_BALANCE''}"
  shows "map_of STRATEGY_WEIGHTS strat = None"
  using assms by (simp add: STRATEGY_WEIGHTS_def)

text \<open>
  C9 (as amended). With a strategy name that is none of the four presets,
  \<^verbatim>\<open>calculate_final_score\<close> behaves as with \<^verbatim>\<open>SMART_BALANCE\<close>: it raises the same
  exception or returns the same final score, breakdown and weights, and its result differs
  from the \<^verbatim>\<open>SMART_BALANCE\<close> result in the explanation only, which names the strategy
  as it was given. On a structurally typed task it returns, with the weights 0.25 each.
\<close>

theorem unknown_strategy_falls_back:
  assumes "strat \<notin> {''FASTEST_WINS'', ''HIGH_IMPACT'', ''DEADLINE_DRIVEN'', ''SMART_BALANCE''}"
  shows "map_sum id (\<lambda>r. r\<lparr>explanation := set_strategy_name ''SMART_BALANCE'' (explanation r)\<rparr>)
           (calculate_final_score strptime clock t batch strat)
         = calculate_final_score strptime clock t batch ''SMART_BALANCE''
     \<and> (structurally_typed t \<longrightarrow>
          (\<exists>r. calculate_final_score strptime clock t batch strat = Inr r
              \<and> weights r = \<lparr>f_urgency = 1 / 4, f_importance = 1 / 4, f_effort = 1 / 4,
                              f_dependency = 1 / 4\<rparr>))"
proof
  have sb: "map_of STRATEGY_WEIGHTS ''SMART_BALANCE'' =
      Some \<lparr>f_urgency = 1 / 4, f_importance = 1 / 4, f_effort = 1 / 4, f_dependency = 1 / 4\<rparr>"
    by (simp add: STRATEGY_WEIGHTS_def)
  show "map_sum id (\<lambda>r. r\<lparr>explanation := set_strategy_name ''SMART_BALANCE'' (explanation r)\<rparr>)
           (calculate_final_score strptime clock t batch strat)
         = calculate_final_score strptime clock t batch ''SMART_BALANCE''"
    unfolding calculate_final_score_def unknown_strategy_lookup [OF assms] sb
    by (simp add: Let_def split: sum.splits prod.splits)
  show "structurally_typed t \<longrightarrow>
          (\<exists>r. calculate_final_score strptime clock t batch strat = Inr r
              \<and> weights r = \<lparr>f_urgency = 1 / 4, f_importance = 1 / 4, f_effort = 1 / 4,
                              f_dependency = 1 / 4\<rparr>)"
  proof
    assume ty: "structurally_typed t"
    from typed_factor_scores [OF ty, of strptime clock batch] obtain u ue i ie e ee d de where
      f: "calculate_urgency_score strptime clock (due_date t) None = Inr (u, ue)"
        "calculate_importance_score (importance t) = Inr (i, ie)"
        "calculate_effort_score (estimated_hours t) = Inr (e, ee)"
        "calculate_dependency_score (task_id t) batch = Inr (d, de)"
      by auto
    from calculate_final_score_Inr [OF f, of strat] show
      "\<exists>r. calculate_final_score strptime clock t batch strat = Inr r
          \<and> weights r = \<lparr>f_urgency = 1 / 4, f_importance = 1 / 4, f_effort = 1 / 4,
                          f_dependency = 1 / 4\<rparr>"
      by (auto simp: strategy_weights_def unknown_strategy_lookup [OF assms])
  qed
qed

theorem unknown_strategy_falls_back_witness:
  "''FOO'' \<notin> {''FASTEST_WINS'', ''HIGH_IMPACT'', ''DEADLINE_DRIVEN'', ''SMART_BALANCE''}
   \<and> structurally_typed (example_task (Some 1) ''A'' ''2025-12-02'' 3 8 [])
   \<and> map_sum id (\<lambda>r. r\<lparr>explanation := set_strategy_name ''SMART_BALANCE'' (explanation r)\<rparr>)
        (calculate_final_score example_strptime 739585
           (example_task (Some 1) ''A'' ''2025-12-02'' 3 8 [])
           [example_task (Some 1) ''A'' ''2025-12-02'' 3 8 []] ''FOO'')
      = calculate_final_score example_strptime 739585
           (example_task (Some 1) ''A'' ''2025-12-02'' 3 8 [])
           [example_task (Some 1) ''A'' ''2025-12-02'' 3 8 []] ''SMART_BALANCE''
   \<and> (\<exists>r. calculate_final_score example_strptime 739585
           (example_task (Some 1) ''A'' ''2025-12-02'' 3 8 [])
           [example_task (Some 1) ''A'' ''2025-12-02'' 3 8 []] ''FOO'' = Inr r)"
  using unknown_strategy_falls_back [of "''FOO''" example_strptime 739585
      "example_task (Some 1) ''A'' ''2025-12-02'' 3 8 []" "[example_task (Some 1) ''A'' ''2025-12-02'' 3 8 []]"]
  by (auto simp: structurally_typed_def example_task_def)

text \<open>
  C9 as stated fails on the explanation: the result for the unknown name \<^verbatim>\<open>FOO\<close> is not
  the result for \<^verbatim>\<open>SMART_BALANCE\<close>.
\<close>

theorem unknown_strategy_explanation_counterexample:
  "calculate_final_score example_strptime 739585
     (example_task (Some 1) ''A'' ''2025-12-02'' 3 8 [])
     [example_task (Some 1) ''A'' ''2025-12-02'' 3 8 []] ''FOO''
   \<noteq> calculate_final_score example_strptime 739585
     (example_task (Some 1) ''A'' ''2025-12-02'' 3 8 [])
     [example_task (Some 1) ''A'' ''2025-12-02'' 3 8 []] ''SMART_BALANCE''"
  by (simp add: calculate_final_score_def STRATEGY_WEIGHTS_def example_task_def
      example_strptime_def calculate_urgency_score_def urgency_by_days_left_def
      calculate_importance_score_def calculate_effort_score_def
      calculate_dependency_score_def get_dependencies_def Let_def)

subsection \<open>Ranking\<close>



lemma structurally_valid_task_id [simp]:
  "structurally_valid strptime (t\<lparr>task_id := i\<rparr>) = structurally_valid strptime t"
  by (simp add: structurally_valid_def)


lemma length_add_task_ids_from [simp]: "length (add_task_ids_from i ts) = length ts"
  by (induction ts arbitrary: i) auto


lemma truncate_extend [simp]:
  "task.truncate (task.extend t (scored_task.fields a b c d)) = t"
  by (simp add: task.truncate_def task.extend_def scored_task.fields_def)

lemma priority_score_extend [simp]:
  "priority_score (task.extend t (scored_task.fields a b c d)) = a"
  by (simp add: task.extend_def scored_task.fields_def)





end
